theory Spec2Isabelle
  imports Complex_Main "HOL-Library.Multiset"
begin

section \<open>The middle layer of osm2pgsql over PostgreSQL tables\<close>

text \<open>
  A shallow embedding of \<^verbatim>\<open>middle-pgsql.cpp\<close>. C strings are lists of characters
  without the terminating NUL. A function that reads or writes beyond a buffer has no
  defined behaviour in C; where the model follows the source that far, the result is
  \<open>None\<close>.
\<close>

subsection \<open>Ids and characters\<close>

type_synonym osmid_t = int

definition ID_NONE :: osmid_t where
  "ID_NONE = 9223372036854775807"

abbreviation dquote :: char where "dquote \<equiv> CHR 0x22"
abbreviation backslash :: char where "backslash \<equiv> CHR 0x5C"
abbreviation newline :: char where "newline \<equiv> CHR 0x0A"
abbreviation creturn :: char where "creturn \<equiv> CHR 0x0D"
abbreviation tabchar :: char where "tabchar \<equiv> CHR 0x09"
abbreviation lbrace :: char where "lbrace \<equiv> CHR 0x7B"
abbreviation rbrace :: char where "rbrace \<equiv> CHR 0x7D"
abbreviation comma :: char where "comma \<equiv> CHR 0x2C"

type_synonym keyval = "(string \<times> string) list"

subsection \<open>Array literals: the encoder\<close>

text \<open>
  \<^verbatim>\<open>escape_tag(ptr, in, escape)\<close> appends the escaped form of \<open>in\<close>; with \<open>escape\<close>
  set (COPY mode) every backslash it writes is doubled.
\<close>

fun escape_tag :: "string \<Rightarrow> bool \<Rightarrow> string" where
  "escape_tag [] escape = []"
| "escape_tag (c # cs) escape =
     (if c = dquote then (if escape then [backslash] else []) @ [backslash, dquote]
      else if c = backslash then
        (if escape then [backslash, backslash] else []) @ [backslash, backslash]
      else if c = newline then (if escape then [backslash] else []) @ [backslash, CHR ''n'']
      else if c = creturn then (if escape then [backslash] else []) @ [backslash, CHR ''r'']
      else if c = tabchar then (if escape then [backslash] else []) @ [backslash, CHR ''t'']
      else [c])
     @ escape_tag cs escape"

text \<open>The body of the loop of \<^verbatim>\<open>pgsql_store_tags\<close> over the items of the list.\<close>

fun store_tags_items :: "keyval \<Rightarrow> bool \<Rightarrow> bool \<Rightarrow> string" where
  "store_tags_items [] escape first = []"
| "store_tags_items ((k, v) # rest) escape first =
     (if first then [] else [comma])
     @ [dquote] @ escape_tag k escape @ [dquote]
     @ [comma]
     @ [dquote] @ escape_tag v escape @ [dquote]
     @ store_tags_items rest escape False"

text \<open>
  \<^verbatim>\<open>pgsql_store_tags(tags, escape)\<close>: an empty list gives the text \<^verbatim>\<open>\N\<close> in COPY
  mode and the null pointer (\<open>None\<close>) otherwise.
\<close>

definition pgsql_store_tags :: "keyval \<Rightarrow> bool \<Rightarrow> string option" where
  "pgsql_store_tags tags escape =
     (if length tags = 0 then (if escape then Some [backslash, CHR ''N''] else None)
      else Some ([lbrace] @ store_tags_items tags escape True @ [rbrace]))"

subsection \<open>Array literals: the decoder\<close>

text \<open>
  The loop of \<^verbatim>\<open>decode_upto\<close>. The source stops at the closing quote (quoted) or
  at a comma or closing brace (unquoted); a backslash takes the next character, turning
  \<^verbatim>\<open>n\<close> into a newline and \<^verbatim>\<open>t\<close> into a tab. Running over the end of the string
  is \<open>None\<close>.
\<close>

fun decode_loop :: "bool \<Rightarrow> string \<Rightarrow> string \<Rightarrow> (string \<times> string) option" where
  "decode_loop quoted [] dst = None"
| "decode_loop quoted (c # src) dst =
     (if (if quoted then c = dquote else (c = comma \<or> c = rbrace)) then Some (c # src, dst)
      else if c = backslash then
        (case src of
           [] \<Rightarrow> None
         | d # src' \<Rightarrow>
             decode_loop quoted src'
               (dst @ [if d = CHR ''n'' then newline else if d = CHR ''t'' then tabchar else d]))
      else decode_loop quoted src (dst @ [c]))"

text \<open>\<^verbatim>\<open>decode_upto(src, dst)\<close> returns the rest of the source and the decoded text.\<close>

definition decode_upto :: "string \<Rightarrow> (string \<times> string) option" where
  "decode_upto src =
     (case src of
        [] \<Rightarrow> decode_loop False [] []
      | c # rest \<Rightarrow>
          if c = dquote then
            (case decode_loop True rest [] of
               None \<Rightarrow> None
             | Some (src', dst) \<Rightarrow> Some (tl src', dst))
          else decode_loop False src [])"

lemma decode_loop_shorter:
  "decode_loop quoted src dst = Some (src', out) \<Longrightarrow> length src' \<le> length src"
proof (induction quoted src dst rule: decode_loop.induct)
  case (1 quoted dst)
  then show ?case by simp
next
  case (2 quoted c src dst)
  then show ?case
    by (auto split: if_splits list.splits)
qed

lemma decode_upto_shorter:
  assumes a: "decode_upto src = Some (src', out)"
  shows "length src' \<le> length src"
proof (cases src)
  case Nil
  then show ?thesis using a by (simp add: decode_upto_def)
next
  case (Cons c rest)
  show ?thesis
  proof (cases "c = dquote")
    case True
    then obtain s d where sd: "decode_loop True rest [] = Some (s, d)" and s': "src' = tl s"
      using a Cons by (auto simp: decode_upto_def split: option.splits)
    from decode_loop_shorter[OF sd] have "length s \<le> length rest" .
    then show ?thesis using s' Cons by simp
  next
    case False
    then have "decode_loop False src [] = Some (src', out)"
      using a Cons by (simp add: decode_upto_def)
    from decode_loop_shorter[OF this] show ?thesis .
  qed
qed

text \<open>
  The loop of \<^verbatim>\<open>pgsql_parse_tags\<close>: decode a key, step over the separator, decode a
  value, append the pair (\<^verbatim>\<open>addItem\<close>), step over a comma. Key and value are decoded
  into buffers of 1024 bytes; a longer element overruns them.
\<close>

function parse_tags_loop :: "string \<Rightarrow> keyval \<Rightarrow> keyval option" where
  "parse_tags_loop string tags =
     (case string of
        [] \<Rightarrow> None
      | c # _ \<Rightarrow>
          if c = rbrace then Some tags
          else
            (case decode_upto string of
               None \<Rightarrow> None
             | Some (s1, key) \<Rightarrow>
                 if length key \<ge> 1024 then None
                 else
                   (case s1 of
                      [] \<Rightarrow> None
                    | _ # s2 \<Rightarrow>
                        (case decode_upto s2 of
                           None \<Rightarrow> None
                         | Some (s3, val) \<Rightarrow>
                             if length val \<ge> 1024 then None
                             else
                               parse_tags_loop
                                 (case s3 of [] \<Rightarrow> [] | d # s4 \<Rightarrow> if d = comma then s4 else s3)
                                 (tags @ [(key, val)])))))"
  by pat_completeness auto
termination
proof (relation "measure (\<lambda>(string, tags). length string)")
  show "wf (measure (\<lambda>(string, tags). length string))" by simp
next
  fix string :: string and tags :: keyval and c cs x s1 key d s2 y s3 val
  assume a: "decode_upto string = Some x" "(s1, key) = x" "s1 = d # s2"
    "decode_upto s2 = Some y" "(s3, val) = y"
  from a have "length s1 \<le> length string"
    using decode_upto_shorter[of string s1 key] by simp
  moreover from a have "length s3 \<le> length s2"
    using decode_upto_shorter[of s2 s3 val] by simp
  moreover have "length (case s3 of [] \<Rightarrow> [] | d # s4 \<Rightarrow> if d = comma then s4 else s3)
      \<le> length s3"
    by (simp split: list.splits)
  ultimately show "((case s3 of [] \<Rightarrow> [] | d # s4 \<Rightarrow> if d = comma then s4 else s3,
       tags @ [(key, val)]), string, tags) \<in> measure (\<lambda>(string, tags). length string)"
    using a by simp
qed

text \<open>
  \<^verbatim>\<open>pgsql_parse_tags(string, tags)\<close>: an empty text (a NULL column) and a text that
  does not open with a brace leave the list as it is.
\<close>

definition pgsql_parse_tags :: "string \<Rightarrow> keyval \<Rightarrow> keyval option" where
  "pgsql_parse_tags string tags =
     (case string of
        [] \<Rightarrow> Some tags
      | c # rest \<Rightarrow> if c \<noteq> lbrace then Some tags else parse_tags_loop rest tags)"

text \<open>
  Writing a list with \<^verbatim>\<open>pgsql_store_tags\<close> (prepared-statement form) and reading the
  text back with \<^verbatim>\<open>pgsql_parse_tags\<close>; the null pointer reads back as the empty text.
\<close>

definition decode_encode :: "keyval \<Rightarrow> keyval option" where
  "decode_encode xs =
     pgsql_parse_tags (case pgsql_store_tags xs False of None \<Rightarrow> [] | Some s \<Rightarrow> s) []"

subsection \<open>Arrays of ids\<close>

text \<open>The decimal text that \<^verbatim>\<open>sprintf\<close> writes for an id (\<^verbatim>\<open>PRIdOSMID\<close>).\<close>

definition digit_char :: "nat \<Rightarrow> char" where
  "digit_char d = ''0123456789'' ! d"

function dec_digits :: "nat \<Rightarrow> string" where
  "dec_digits n = (if n < 10 then [digit_char n] else dec_digits (n div 10) @ [digit_char (n mod 10)])"
  by pat_completeness auto
termination
  by (relation "measure (\<lambda>n. n)") auto

declare dec_digits.simps [simp del]

definition sprintf_osmid :: "osmid_t \<Rightarrow> string" where
  "sprintf_osmid i = (if i < 0 then CHR ''-'' # dec_digits (nat (- i)) else dec_digits (nat i))"



text \<open>
  \<^verbatim>\<open>strtoosmid(s, &ptr, 10)\<close> is \<^verbatim>\<open>strtoll\<close>: it skips white space, reads a sign and
  the digits, and clamps the value to the range of a 64-bit integer; with no digit it
  returns 0 and leaves \<^verbatim>\<open>ptr\<close> at the start.
\<close>

definition isspace :: "char \<Rightarrow> bool" where
  "isspace c = (c \<in> set [CHR 0x20, CHR 0x09, CHR 0x0A, CHR 0x0B, CHR 0x0C, CHR 0x0D])"

definition isdigit :: "char \<Rightarrow> bool" where
  "isdigit c = (c \<in> set ''0123456789'')"

definition digit_val :: "char \<Rightarrow> int" where
  "digit_val c = int (of_char c) - 48"

definition dec_value :: "string \<Rightarrow> int" where
  "dec_value ds = foldl (\<lambda>a c. 10 * a + digit_val c) 0 ds"

definition clamp64 :: "int \<Rightarrow> int" where
  "clamp64 v = max (- 9223372036854775808) (min 9223372036854775807 v)"

definition strtoosmid :: "string \<Rightarrow> osmid_t \<times> string" where
  "strtoosmid s =
     (let s1 = dropWhile isspace s;
          neg = (s1 \<noteq> [] \<and> hd s1 = CHR ''-'');
          s2 = (if s1 \<noteq> [] \<and> (hd s1 = CHR ''-'' \<or> hd s1 = CHR ''+'') then tl s1 else s1);
          ds = takeWhile isdigit s2
      in if ds = [] then (0, s)
         else (clamp64 (if neg then - dec_value ds else dec_value ds), dropWhile isdigit s2))"




subsection \<open>Relation members\<close>

datatype OsmType = OSMTYPE_NODE | OSMTYPE_WAY | OSMTYPE_RELATION | OSMTYPE_INVALID

record member =
  m_type :: OsmType
  m_id :: osmid_t
  m_role :: string

datatype members_result = Members "member list" int | MemberCountExit

text \<open>
  The loop of \<^verbatim>\<open>relations_get\<close> over the decoded member list: \<^verbatim>\<open>popItem\<close> takes the
  items in order; an item at an index that is not below \<^verbatim>\<open>num_members\<close> ends the
  process. The type is read from the first character of the key and the id from the
  rest; an empty key makes \<^verbatim>\<open>strtoosmid\<close> read behind the key.
\<close>

fun members_loop :: "keyval \<Rightarrow> int \<Rightarrow> member list \<Rightarrow> members_result option" where
  "members_loop [] num_members list = Some (Members list num_members)"
| "members_loop ((key, val) # member_temp) num_members list =
     (if int (length list) \<ge> num_members then Some MemberCountExit
      else
        (case key of
           [] \<Rightarrow> None
         | tag # digits \<Rightarrow>
             members_loop member_temp num_members
               (list @ [\<lparr> m_type =
                           (if tag = CHR ''n'' then OSMTYPE_NODE
                            else if tag = CHR ''w'' then OSMTYPE_WAY
                            else if tag = CHR ''r'' then OSMTYPE_RELATION
                            else OSMTYPE_INVALID),
                         m_id = fst (strtoosmid digits),
                         m_role = val \<rparr>])))"
subsection \<open>Options and the templates of the SQL text\<close>

record options_t =
  append_opt :: bool
  prefix :: string
  tblsslim_data :: "string option"
  tblsslim_index :: "string option"
  unlogged :: bool
  flat_node_cache_enabled :: bool
  droptemp :: bool













subsection \<open>The id tracker\<close>

text \<open>
  Modelled from the spec: the implementation of \<^verbatim>\<open>id_tracker\<close> (its \<^verbatim>\<open>pimpl\<close>) is not
  among the sources, only the interface \<^verbatim>\<open>id-tracker.hpp\<close>. The specification: a set
  of ids; \<^verbatim>\<open>mark\<close> inserts and is idempotent; \<^verbatim>\<open>pop_mark\<close> removes and returns any
  element and returns \<open>ID_NONE\<close> when the set is empty; \<^verbatim>\<open>size\<close> is the cardinality.
  The set is a list without repetitions; which element \<^verbatim>\<open>pop_mark\<close> takes is left to
  a function \<open>pick\<close> of the tracker's content, so that every order of draining is
  covered.
\<close>

type_synonym id_tracker = "osmid_t list"

definition mark :: "osmid_t \<Rightarrow> id_tracker \<Rightarrow> id_tracker" where
  "mark i t = (if i \<in> set t then t else t @ [i])"

definition is_marked :: "osmid_t \<Rightarrow> id_tracker \<Rightarrow> bool" where
  "is_marked i t = (i \<in> set t)"

definition pop_mark :: "(osmid_t list \<Rightarrow> nat) \<Rightarrow> id_tracker \<Rightarrow> osmid_t \<times> id_tracker" where
  "pop_mark pick t =
     (if t = [] then (ID_NONE, t)
      else (t ! (pick t mod length t),
            take (pick t mod length t) t @ drop (Suc (pick t mod length t)) t))"

definition size_tracker :: "id_tracker \<Rightarrow> nat" where
  "size_tracker t = length t"






subsection \<open>The staging store and the state of the middle layer\<close>

text \<open>
  A \<^verbatim>\<open>double\<close> coordinate is either NaN or a number; the code only copies coordinates
  and tests them for NaN.
\<close>

datatype coord = NaN | Val real

definition isnan :: "coord \<Rightarrow> bool" where
  "isnan c = (c = NaN)"

record osmNode =
  lat :: coord
  lon :: coord

text \<open>
  The rows of the three tables, with the columns of the \<^verbatim>\<open>CREATE TABLE\<close> texts. The
  columns are kept as values: the array literals that travel between the program and the
  store are the subject of the codec above.
\<close>

record node_row =
  n_id :: osmid_t
  n_lat :: coord
  n_lon :: coord
  n_tags :: keyval

record way_row =
  w_id :: osmid_t
  w_nodes :: "osmid_t list"
  w_tags :: keyval

record rel_row =
  r_id :: osmid_t
  way_off :: int
  rel_off :: int
  parts :: "osmid_t list"
  members :: keyval
  r_tags :: keyval

datatype table_id = t_node | t_way | t_rel

text \<open>
  Of \<^verbatim>\<open>table_desc\<close> the model keeps the two mode flags and whether the connection is
  open (\<^verbatim>\<open>sql_conn\<close> is not null).
\<close>

record table_desc =
  copyMode :: bool
  transactionMode :: bool
  sql_conn :: bool

text \<open>The ways the process ends: \<^verbatim>\<open>util::exit_nicely\<close> and its kin.\<close>

datatype fatal =
  PreparedInCopyMode
  | CopyDataOutsideCopy
  | StoreError
  | CopyEndFailed
  | UnknownMemberType
  | UnexpectedMemberCount
  | UndefinedBehaviour

text \<open>
  The state: the three table descriptors, the content of the three tables in the store,
  the rows sent by an open COPY and not yet part of the table, the flags, the two node
  caches (neither is among the sources; the RAM cache is a pure hit or miss, and the
  persistent cache is a file addressed by id in which NaN marks a deleted node) and the
  two pending trackers. The store is one state: a statement sees what the statements
  before it did, on whichever connection they ran.
\<close>

record middle_pgsql_t =
  node_table :: table_desc
  way_table :: table_desc
  rel_table :: table_desc
  nodes_rows :: "node_row list"
  ways_rows :: "way_row list"
  rels_rows :: "rel_row list"
  nodes_copy :: "node_row list"
  ways_copy :: "way_row list"
  rels_copy :: "rel_row list"
  Append :: bool
  cache :: "osmid_t \<Rightarrow> osmNode option"
  persistent_cache :: "osmid_t \<Rightarrow> osmNode option"
  out_options :: options_t
  ways_pending_tracker :: id_tracker
  rels_pending_tracker :: id_tracker
  build_indexes :: bool

fun table_of :: "table_id \<Rightarrow> middle_pgsql_t \<Rightarrow> table_desc" where
  "table_of t_node st = node_table st"
| "table_of t_way st = way_table st"
| "table_of t_rel st = rel_table st"

fun set_table :: "table_id \<Rightarrow> table_desc \<Rightarrow> middle_pgsql_t \<Rightarrow> middle_pgsql_t" where
  "set_table t_node d st = st\<lparr> node_table := d \<rparr>"
| "set_table t_way d st = st\<lparr> way_table := d \<rparr>"
| "set_table t_rel d st = st\<lparr> rel_table := d \<rparr>"

definition and_then :: "fatal + 'a \<Rightarrow> ('a \<Rightarrow> fatal + 'b) \<Rightarrow> fatal + 'b" where
  "and_then m f = (case m of Inl e \<Rightarrow> Inl e | Inr x \<Rightarrow> f x)"

fun fold_result :: "('a \<Rightarrow> 's \<Rightarrow> fatal + 's) \<Rightarrow> 'a list \<Rightarrow> 's \<Rightarrow> fatal + 's" where
  "fold_result f [] s = Inr s"
| "fold_result f (x # xs) s = and_then (f x s) (fold_result f xs)"

subsection \<open>The store's side of the statements\<close>

text \<open>
  Every table has its id as primary key, and the offsets of a relation are \<^verbatim>\<open>int2\<close>:
  the store refuses a row that repeats a key or whose offset is out of range.
\<close>

definition rel_row_ok :: "rel_row \<Rightarrow> bool" where
  "rel_row_ok r =
     (- 32768 \<le> way_off r \<and> way_off r \<le> 32767 \<and> - 32768 \<le> rel_off r \<and> rel_off r \<le> 32767)"

definition insert_node :: "node_row \<Rightarrow> middle_pgsql_t \<Rightarrow> fatal + middle_pgsql_t" where
  "insert_node row st =
     (if n_id row \<in> set (map n_id (nodes_rows st)) then Inl StoreError
      else Inr (st\<lparr> nodes_rows := nodes_rows st @ [row] \<rparr>))"

definition insert_way :: "way_row \<Rightarrow> middle_pgsql_t \<Rightarrow> fatal + middle_pgsql_t" where
  "insert_way row st =
     (if w_id row \<in> set (map w_id (ways_rows st)) then Inl StoreError
      else Inr (st\<lparr> ways_rows := ways_rows st @ [row] \<rparr>))"

definition insert_rel :: "rel_row \<Rightarrow> middle_pgsql_t \<Rightarrow> fatal + middle_pgsql_t" where
  "insert_rel row st =
     (if r_id row \<in> set (map r_id (rels_rows st)) \<or> \<not> rel_row_ok row then Inl StoreError
      else Inr (st\<lparr> rels_rows := rels_rows st @ [row] \<rparr>))"

text \<open>The end of a COPY: its rows join the table, or the store reports a failure.\<close>

fun flush_copy :: "table_id \<Rightarrow> middle_pgsql_t \<Rightarrow> middle_pgsql_t option" where
  "flush_copy t_node st =
     (if distinct (map n_id (nodes_rows st @ nodes_copy st))
      then Some (st\<lparr> nodes_rows := nodes_rows st @ nodes_copy st, nodes_copy := [] \<rparr>)
      else None)"
| "flush_copy t_way st =
     (if distinct (map w_id (ways_rows st @ ways_copy st))
      then Some (st\<lparr> ways_rows := ways_rows st @ ways_copy st, ways_copy := [] \<rparr>)
      else None)"
| "flush_copy t_rel st =
     (if distinct (map r_id (rels_rows st @ rels_copy st)) \<and> list_all rel_row_ok (rels_copy st)
      then Some (st\<lparr> rels_rows := rels_rows st @ rels_copy st, rels_copy := [] \<rparr>)
      else None)"

text \<open>
  The queries, after the \<^verbatim>\<open>PREPARE\<close> texts of the constructor. \<open>nodes && ARRAY[$1]\<close>
  holds when the array contains the id; \<open>parts[way_off+1:rel_off]\<close> is the slice of the
  way members and \<open>parts[rel_off+1:array_length(parts,1)]\<close> that of the relation members.
\<close>

definition get_node_list :: "node_row list \<Rightarrow> osmid_t list \<Rightarrow> node_row list" where
  "get_node_list nodes ids = filter (\<lambda>r. n_id r \<in> set ids) nodes"

definition get_way :: "way_row list \<Rightarrow> osmid_t \<Rightarrow> way_row list" where
  "get_way ways i = filter (\<lambda>w. w_id w = i) ways"

definition get_way_list :: "way_row list \<Rightarrow> osmid_t list \<Rightarrow> way_row list" where
  "get_way_list ways ids = filter (\<lambda>w. w_id w \<in> set ids) ways"

definition get_rel :: "rel_row list \<Rightarrow> osmid_t \<Rightarrow> rel_row list" where
  "get_rel rels i = filter (\<lambda>r. r_id r = i) rels"

definition way_slice :: "rel_row \<Rightarrow> osmid_t list" where
  "way_slice r = take (nat (rel_off r - way_off r)) (drop (nat (way_off r)) (parts r))"

definition rel_slice :: "rel_row \<Rightarrow> osmid_t list" where
  "rel_slice r = drop (nat (rel_off r)) (parts r)"

definition mark_ways_by_node :: "way_row list \<Rightarrow> osmid_t \<Rightarrow> osmid_t list" where
  "mark_ways_by_node ways i = map w_id (filter (\<lambda>w. i \<in> set (w_nodes w)) ways)"

definition mark_ways_by_rel :: "way_row list \<Rightarrow> rel_row list \<Rightarrow> osmid_t \<Rightarrow> osmid_t list" where
  "mark_ways_by_rel ways rels i =
     map w_id
       (filter (\<lambda>w. w_id w \<in> set (concat (map way_slice (filter (\<lambda>r. r_id r = i) rels))))
          ways)"

definition rels_using_way :: "rel_row list \<Rightarrow> osmid_t \<Rightarrow> osmid_t list" where
  "rels_using_way rels i =
     map r_id (filter (\<lambda>r. i \<in> set (parts r) \<and> i \<in> set (way_slice r)) rels)"

text \<open>
  \<^verbatim>\<open>mark_rels_by_node\<close> is prepared on the connection of the relations table with the
  text \<^verbatim>\<open>select id from %p_ways WHERE nodes && ARRAY[$1]\<close>: it reads the ways table.
\<close>

definition mark_rels_by_node :: "way_row list \<Rightarrow> osmid_t \<Rightarrow> osmid_t list" where
  "mark_rels_by_node ways i = map w_id (filter (\<lambda>w. i \<in> set (w_nodes w)) ways)"

definition mark_rels_by_way :: "rel_row list \<Rightarrow> osmid_t \<Rightarrow> osmid_t list" where
  "mark_rels_by_way rels i =
     map r_id (filter (\<lambda>r. i \<in> set (parts r) \<and> i \<in> set (way_slice r)) rels)"

definition mark_rels :: "rel_row list \<Rightarrow> osmid_t \<Rightarrow> osmid_t list" where
  "mark_rels rels i =
     map r_id (filter (\<lambda>r. i \<in> set (parts r) \<and> i \<in> set (rel_slice r)) rels)"

subsection \<open>The connection\<close>

text \<open>
  \<^verbatim>\<open>pgsql_endCopy(table)\<close>: nothing when the table is not in COPY mode; else the COPY is
  ended, the process exits when that fails, and \<^verbatim>\<open>copyMode\<close> is cleared.
\<close>

definition pgsql_endCopy :: "table_id \<Rightarrow> middle_pgsql_t \<Rightarrow> fatal + middle_pgsql_t" where
  "pgsql_endCopy t st =
     (if copyMode (table_of t st) then
        (if \<not> sql_conn (table_of t st) then Inl CopyEndFailed
         else
           (case flush_copy t st of
              None \<Rightarrow> Inl CopyEndFailed
            | Some st' \<Rightarrow> Inr (set_table t ((table_of t st')\<lparr> copyMode := False \<rparr>) st')))
      else Inr st)"

text \<open>
  Modelled from the spec: \<^verbatim>\<open>pgsql_execPrepared\<close> and \<^verbatim>\<open>pgsql_CopyData\<close> are defined in
  \<^verbatim>\<open>pgsql.cpp\<close>, which is not among the sources. The specification: a prepared
  statement on a table that is streaming is a protocol violation, as is a row copied to
  a table that is not; a statement that fails is fatal.
\<close>

definition pgsql_execPrepared :: "table_id \<Rightarrow> middle_pgsql_t \<Rightarrow> fatal + unit" where
  "pgsql_execPrepared t st =
     (if copyMode (table_of t st) then Inl PreparedInCopyMode
      else if \<not> sql_conn (table_of t st) then Inl StoreError
      else Inr ())"

definition pgsql_CopyData :: "table_id \<Rightarrow> middle_pgsql_t \<Rightarrow> fatal + unit" where
  "pgsql_CopyData t st =
     (if \<not> copyMode (table_of t st) then Inl CopyDataOutsideCopy
      else if \<not> sql_conn (table_of t st) then Inl StoreError
      else Inr ())"

text \<open>
  The statements of \<^verbatim>\<open>prepare_intarray\<close> are prepared by \<^verbatim>\<open>start\<close> only in append
  mode; executing one that was not prepared fails.
\<close>

definition exec_intarray :: "table_id \<Rightarrow> middle_pgsql_t \<Rightarrow> fatal + unit" where
  "exec_intarray t st =
     and_then (pgsql_execPrepared t st) (\<lambda>_. if Append st then Inr () else Inl StoreError)"

subsection \<open>Nodes\<close>

text \<open>
  \<^verbatim>\<open>local_nodes_set\<close>: one row, through the open COPY or through \<^verbatim>\<open>insert_node\<close>. (The
  text of the row is not modelled, nor the guard on its length.)
\<close>

definition local_nodes_set ::
  "osmid_t \<Rightarrow> coord \<Rightarrow> coord \<Rightarrow> keyval \<Rightarrow> middle_pgsql_t \<Rightarrow> fatal + middle_pgsql_t" where
  "local_nodes_set i la lo tags st =
     (if copyMode (node_table st) then
        and_then (pgsql_CopyData t_node st)
          (\<lambda>_. Inr (st\<lparr> nodes_copy := nodes_copy st
                        @ [\<lparr> n_id = i, n_lat = la, n_lon = lo, n_tags = tags \<rparr>] \<rparr>))
      else
        and_then (pgsql_execPrepared t_node st)
          (\<lambda>_. insert_node \<lparr> n_id = i, n_lat = la, n_lon = lo, n_tags = tags \<rparr> st))"

text \<open>
  The three loops of \<^verbatim>\<open>local_nodes_get_list\<close>. First the RAM cache: a hit fills
  \<^verbatim>\<open>nodes[i]\<close> and is counted; a miss sets \<^verbatim>\<open>nodes[i]\<close> to NaN and adds the id to the
  list of the query.
\<close>

definition cache_pass ::
  "(osmid_t \<Rightarrow> osmNode option) \<Rightarrow> osmid_t list \<Rightarrow> nat \<Rightarrow> osmNode list
     \<Rightarrow> osmNode list \<times> nat \<times> nat \<times> osmid_t list" where
  "cache_pass c ndids nd_count nodes =
     fold (\<lambda>i (nodes, count, countDB, tmp2).
             case c (ndids ! i) of
               Some n \<Rightarrow> (nodes[i := n], count + 1, countDB, tmp2)
             | None \<Rightarrow>
                 (nodes[i := \<lparr> lat = NaN, lon = NaN \<rparr>], count, countDB + 1,
                  tmp2 @ [ndids ! i]))
       [0..<nd_count] (nodes, 0, 0, [])"

text \<open>
  Then the rows of the answer are matched back: for every entry that is NaN, the first
  row with its id.
\<close>

definition match_pass ::
  "node_row list \<Rightarrow> osmid_t list \<Rightarrow> nat \<Rightarrow> osmNode list \<times> nat \<Rightarrow> osmNode list \<times> nat" where
  "match_pass res ndids nd_count start =
     fold (\<lambda>i (nodes, count).
             if isnan (lat (nodes ! i)) \<or> isnan (lon (nodes ! i)) then
               (case find (\<lambda>r. n_id r = ndids ! i) res of
                  Some r \<Rightarrow> (nodes[i := \<lparr> lat = n_lat r, lon = n_lon r \<rparr>], count + 1)
                | None \<Rightarrow> (nodes, count))
             else (nodes, count))
       [0..<nd_count] start"

text \<open>Last, when some node is missing, the entries that are not NaN move to the front.\<close>

definition compact_pass :: "nat \<Rightarrow> osmNode list \<Rightarrow> osmNode list" where
  "compact_pass nd_count nodes =
     fst (fold (\<lambda>i (nodes, j).
                  if \<not> isnan (lat (nodes ! i)) then (nodes[j := nodes ! i], j + 1)
                  else (nodes, j))
            [0..<nd_count] (nodes, 0))"

text \<open>
  \<^verbatim>\<open>local_nodes_get_list(nodes, ndids, nd_count)\<close> returns the array and the count.
  Memory allocation is taken to succeed (the source returns 0 when it does not), and the
  list of the query is the list of the missed ids, not its text.
\<close>

definition local_nodes_get_list ::
  "osmNode list \<Rightarrow> osmid_t list \<Rightarrow> nat \<Rightarrow> middle_pgsql_t
     \<Rightarrow> fatal + ((osmNode list \<times> nat) \<times> middle_pgsql_t)" where
  "local_nodes_get_list nodes ndids nd_count st =
     (case cache_pass (cache st) ndids nd_count nodes of
        (nodes1, count1, countDB, tmp2) \<Rightarrow>
          if countDB = 0 then Inr ((nodes1, count1), st)
          else
            and_then (pgsql_endCopy t_node st) (\<lambda>st1.
            and_then (pgsql_execPrepared t_node st1) (\<lambda>_.
              (case match_pass (get_node_list (nodes_rows st1) tmp2) ndids nd_count
                      (nodes1, count1) of
                 (nodes2, count2) \<Rightarrow>
                   Inr ((if count2 \<noteq> nd_count then compact_pass nd_count nodes2 else nodes2,
                         count2), st1)))))"

text \<open>
  Modelled from the spec: \<^verbatim>\<open>node_persistent_cache\<close> is not among the sources. Its
  \<^verbatim>\<open>get_list\<close> fills \<^verbatim>\<open>out[i]\<close> for each id that exists and returns how many it filled;
  its \<^verbatim>\<open>set\<close> writes through, a deletion being written as NaN.
\<close>

definition persistent_get_list ::
  "(osmid_t \<Rightarrow> osmNode option) \<Rightarrow> osmNode list \<Rightarrow> osmid_t list \<Rightarrow> nat \<Rightarrow> osmNode list \<times> nat" where
  "persistent_get_list pc nodes ndids nd_count =
     fold (\<lambda>i (nodes, count).
             case pc (ndids ! i) of
               Some n \<Rightarrow>
                 if isnan (lat n) \<or> isnan (lon n) then (nodes, count)
                 else (nodes[i := n], count + 1)
             | None \<Rightarrow> (nodes, count))
       [0..<nd_count] (nodes, 0)"

definition nodes_get_list ::
  "osmNode list \<Rightarrow> osmid_t list \<Rightarrow> nat \<Rightarrow> middle_pgsql_t
     \<Rightarrow> fatal + ((osmNode list \<times> nat) \<times> middle_pgsql_t)" where
  "nodes_get_list nodes ndids nd_count st =
     (if flat_node_cache_enabled (out_options st)
      then Inr (persistent_get_list (persistent_cache st) nodes ndids nd_count, st)
      else local_nodes_get_list nodes ndids nd_count st)"

definition nodes_set ::
  "osmid_t \<Rightarrow> coord \<Rightarrow> coord \<Rightarrow> keyval \<Rightarrow> middle_pgsql_t \<Rightarrow> fatal + middle_pgsql_t" where
  "nodes_set i la lo tags st =
     (if flat_node_cache_enabled (out_options st)
      then Inr (st\<lparr> cache := (cache st)(i \<mapsto> \<lparr> lat = la, lon = lo \<rparr>),
                     persistent_cache := (persistent_cache st)(i \<mapsto> \<lparr> lat = la, lon = lo \<rparr>) \<rparr>)
      else local_nodes_set i la lo tags (st\<lparr> cache := (cache st)(i \<mapsto> \<lparr> lat = la, lon = lo \<rparr>) \<rparr>))"

definition local_nodes_delete :: "osmid_t \<Rightarrow> middle_pgsql_t \<Rightarrow> fatal + middle_pgsql_t" where
  "local_nodes_delete osm_id st =
     and_then (pgsql_endCopy t_node st) (\<lambda>st1.
     and_then (pgsql_execPrepared t_node st1) (\<lambda>_.
       Inr (st1\<lparr> nodes_rows := filter (\<lambda>r. n_id r \<noteq> osm_id) (nodes_rows st1) \<rparr>)))"

definition nodes_delete :: "osmid_t \<Rightarrow> middle_pgsql_t \<Rightarrow> fatal + middle_pgsql_t" where
  "nodes_delete osm_id st =
     (if flat_node_cache_enabled (out_options st)
      then Inr (st\<lparr> persistent_cache := (persistent_cache st)(osm_id \<mapsto> \<lparr> lat = NaN, lon = NaN \<rparr>) \<rparr>)
      else local_nodes_delete osm_id st)"

text \<open>
  \<^verbatim>\<open>node_changed\<close>: the ways that \<^verbatim>\<open>mark_ways_by_node\<close> returns go to the pending ways,
  the ids that \<^verbatim>\<open>mark_rels_by_node\<close> returns go to the pending relations.
\<close>

definition node_changed :: "osmid_t \<Rightarrow> middle_pgsql_t \<Rightarrow> fatal + middle_pgsql_t" where
  "node_changed osm_id st =
     and_then (pgsql_endCopy t_way st) (\<lambda>st1.
     and_then (pgsql_endCopy t_rel st1) (\<lambda>st2.
     and_then (exec_intarray t_way st2) (\<lambda>_.
       (case st2\<lparr> ways_pending_tracker :=
                    fold mark (mark_ways_by_node (ways_rows st2) osm_id)
                      (ways_pending_tracker st2) \<rparr> of
          st3 \<Rightarrow>
            and_then (exec_intarray t_rel st3) (\<lambda>_.
              Inr (st3\<lparr> rels_pending_tracker :=
                          fold mark (mark_rels_by_node (ways_rows st3) osm_id)
                            (rels_pending_tracker st3) \<rparr>))))))"

subsection \<open>Ways\<close>

definition ways_set ::
  "osmid_t \<Rightarrow> osmid_t list \<Rightarrow> keyval \<Rightarrow> middle_pgsql_t \<Rightarrow> fatal + middle_pgsql_t" where
  "ways_set way_id nds tags st =
     (if copyMode (way_table st) then
        and_then (pgsql_CopyData t_way st)
          (\<lambda>_. Inr (st\<lparr> ways_copy := ways_copy st
                        @ [\<lparr> w_id = way_id, w_nodes = nds, w_tags = tags \<rparr>] \<rparr>))
      else
        and_then (pgsql_execPrepared t_way st)
          (\<lambda>_. insert_way \<lparr> w_id = way_id, w_nodes = nds, w_tags = tags \<rparr> st))"

text \<open>
  \<^verbatim>\<open>ways_get\<close> returns 1 (here \<open>None\<close>) unless \<^verbatim>\<open>get_way\<close> gives exactly one row; else
  the tags, and the nodes of the way resolved by \<^verbatim>\<open>nodes_get_list\<close> into a fresh array
  of \<^verbatim>\<open>array_upper(nodes,1)\<close> entries.
\<close>

definition ways_get ::
  "osmid_t \<Rightarrow> middle_pgsql_t
     \<Rightarrow> fatal + ((keyval \<times> osmNode list \<times> nat) option \<times> middle_pgsql_t)" where
  "ways_get i st =
     and_then (pgsql_endCopy t_way st) (\<lambda>st1.
     and_then (pgsql_execPrepared t_way st1) (\<lambda>_.
       (case get_way (ways_rows st1) i of
          [w] \<Rightarrow>
            and_then
              (nodes_get_list (replicate (length (w_nodes w)) \<lparr> lat = NaN, lon = NaN \<rparr>)
                 (w_nodes w) (length (w_nodes w)) st1)
              (\<lambda>((nodes, count), st2). Inr (Some (w_tags w, nodes, count), st2))
        | _ \<Rightarrow> Inr (None, st1))))"

text \<open>
  \<^verbatim>\<open>ways_get_list\<close>: one query, then for every requested id every row of the answer
  with that id.
\<close>

type_synonym way_data = "osmid_t \<times> keyval \<times> osmNode list \<times> nat"

definition ways_get_list ::
  "osmid_t list \<Rightarrow> middle_pgsql_t \<Rightarrow> fatal + (way_data list \<times> middle_pgsql_t)" where
  "ways_get_list ids st =
     (if length ids = 0 then Inr ([], st)
      else
        and_then (pgsql_endCopy t_way st) (\<lambda>st1.
        and_then (pgsql_execPrepared t_way st1) (\<lambda>_.
          fold_result
            (\<lambda>i. fold_result
                    (\<lambda>w (out, s).
                       if i = w_id w then
                         and_then
                           (nodes_get_list
                              (replicate (length (w_nodes w)) \<lparr> lat = NaN, lon = NaN \<rparr>)
                              (w_nodes w) (length (w_nodes w)) s)
                           (\<lambda>((nodes, count), s'). Inr (out @ [(i, w_tags w, nodes, count)], s'))
                       else Inr (out, s))
                    (get_way_list (ways_rows st1) ids))
            ids ([], st1))))"

definition ways_delete :: "osmid_t \<Rightarrow> middle_pgsql_t \<Rightarrow> fatal + middle_pgsql_t" where
  "ways_delete osm_id st =
     and_then (pgsql_endCopy t_way st) (\<lambda>st1.
     and_then (pgsql_execPrepared t_way st1) (\<lambda>_.
       Inr (st1\<lparr> ways_rows := filter (\<lambda>w. w_id w \<noteq> osm_id) (ways_rows st1) \<rparr>)))"

definition way_changed :: "osmid_t \<Rightarrow> middle_pgsql_t \<Rightarrow> fatal + middle_pgsql_t" where
  "way_changed osm_id st =
     and_then (pgsql_endCopy t_rel st) (\<lambda>st1.
     and_then (exec_intarray t_rel st1) (\<lambda>_.
       Inr (st1\<lparr> rels_pending_tracker :=
                   fold mark (mark_rels_by_way (rels_rows st1) osm_id)
                     (rels_pending_tracker st1) \<rparr>)))"

subsection \<open>Relations\<close>

text \<open>
  The loop of \<^verbatim>\<open>relations_set\<close> over the members: the id goes to the array of its
  type, the member list gets the key made of the letter of the type and the id, with the
  role; any other type ends the process.
\<close>

fun relations_set_loop ::
  "member list \<Rightarrow> osmid_t list \<times> osmid_t list \<times> osmid_t list \<times> keyval
     \<Rightarrow> fatal + (osmid_t list \<times> osmid_t list \<times> osmid_t list \<times> keyval)" where
  "relations_set_loop [] acc = Inr acc"
| "relations_set_loop (m # ms) (node_parts, way_parts, rel_parts, member_list) =
     (case m_type m of
        OSMTYPE_NODE \<Rightarrow>
          relations_set_loop ms
            (node_parts @ [m_id m], way_parts, rel_parts,
             member_list @ [(CHR ''n'' # sprintf_osmid (m_id m), m_role m)])
      | OSMTYPE_WAY \<Rightarrow>
          relations_set_loop ms
            (node_parts, way_parts @ [m_id m], rel_parts,
             member_list @ [(CHR ''w'' # sprintf_osmid (m_id m), m_role m)])
      | OSMTYPE_RELATION \<Rightarrow>
          relations_set_loop ms
            (node_parts, way_parts, rel_parts @ [m_id m],
             member_list @ [(CHR ''r'' # sprintf_osmid (m_id m), m_role m)])
      | OSMTYPE_INVALID \<Rightarrow> Inl UnknownMemberType)"

text \<open>The row that \<^verbatim>\<open>relations_set\<close> sends, by COPY or by \<^verbatim>\<open>insert_rel\<close>.\<close>

definition relation_row :: "osmid_t \<Rightarrow> member list \<Rightarrow> keyval \<Rightarrow> fatal + rel_row" where
  "relation_row i ms tags =
     and_then (relations_set_loop ms ([], [], [], []))
       (\<lambda>(node_parts, way_parts, rel_parts, member_list).
          Inr \<lparr> r_id = i,
                way_off = int (length node_parts),
                rel_off = int (length node_parts) + int (length way_parts),
                parts = node_parts @ way_parts @ rel_parts,
                members = member_list,
                r_tags = tags \<rparr>)"

definition relations_set ::
  "osmid_t \<Rightarrow> member list \<Rightarrow> keyval \<Rightarrow> middle_pgsql_t \<Rightarrow> fatal + middle_pgsql_t" where
  "relations_set i ms tags st =
     and_then (relation_row i ms tags) (\<lambda>row.
       if copyMode (rel_table st) then
         and_then (pgsql_CopyData t_rel st)
           (\<lambda>_. Inr (st\<lparr> rels_copy := rels_copy st @ [row] \<rparr>))
       else
         and_then (pgsql_execPrepared t_rel st) (\<lambda>_. insert_rel row st))"

text \<open>
  \<^verbatim>\<open>relations_get\<close> returns 1 (here \<open>None\<close>) unless \<^verbatim>\<open>get_rel\<close> gives exactly one row;
  \<^verbatim>\<open>num_members\<close> is half of \<^verbatim>\<open>array_upper(members,1)\<close>.
\<close>

definition relations_get ::
  "osmid_t \<Rightarrow> middle_pgsql_t
     \<Rightarrow> fatal + ((member list \<times> int \<times> keyval) option \<times> middle_pgsql_t)" where
  "relations_get i st =
     and_then (pgsql_endCopy t_rel st) (\<lambda>st1.
     and_then (pgsql_execPrepared t_rel st1) (\<lambda>_.
       (case get_rel (rels_rows st1) i of
          [r] \<Rightarrow>
            (case members_loop (members r) (int (length (members r))) [] of
               None \<Rightarrow> Inl UndefinedBehaviour
             | Some MemberCountExit \<Rightarrow> Inl UnexpectedMemberCount
             | Some (Members list num_members) \<Rightarrow>
                 Inr (Some (list, num_members, r_tags r), st1))
        | _ \<Rightarrow> Inr (None, st1))))"

text \<open>
  \<^verbatim>\<open>relations_delete\<close>: \<^verbatim>\<open>delete_rel\<close> on the connection of the relations, then
  \<^verbatim>\<open>mark_ways_by_rel\<close> on the connection of the ways.
\<close>

definition relations_delete :: "osmid_t \<Rightarrow> middle_pgsql_t \<Rightarrow> fatal + middle_pgsql_t" where
  "relations_delete osm_id st =
     and_then (pgsql_endCopy t_way st) (\<lambda>st1.
     and_then (pgsql_endCopy t_rel st1) (\<lambda>st2.
     and_then (pgsql_execPrepared t_rel st2) (\<lambda>_.
       (case st2\<lparr> rels_rows := filter (\<lambda>r. r_id r \<noteq> osm_id) (rels_rows st2) \<rparr> of
          st3 \<Rightarrow>
            and_then (exec_intarray t_way st3) (\<lambda>_.
              Inr (st3\<lparr> ways_pending_tracker :=
                          fold mark (mark_ways_by_rel (ways_rows st3) (rels_rows st3) osm_id)
                            (ways_pending_tracker st3) \<rparr>))))))"

definition relation_changed :: "osmid_t \<Rightarrow> middle_pgsql_t \<Rightarrow> fatal + middle_pgsql_t" where
  "relation_changed osm_id st =
     and_then (pgsql_endCopy t_rel st) (\<lambda>st1.
     and_then (exec_intarray t_rel st1) (\<lambda>_.
       Inr (st1\<lparr> rels_pending_tracker :=
                   fold mark (mark_rels (rels_rows st1) osm_id) (rels_pending_tracker st1) \<rparr>)))"

definition relations_using_way ::
  "osmid_t \<Rightarrow> middle_pgsql_t \<Rightarrow> fatal + (osmid_t list \<times> middle_pgsql_t)" where
  "relations_using_way way_id st =
     and_then (pgsql_endCopy t_rel st) (\<lambda>st1.
     and_then (exec_intarray t_rel st1) (\<lambda>_.
       Inr (rels_using_way (rels_rows st1) way_id, st1)))"

text \<open>The ids of the members of one type, in the order of the member list.\<close>

definition refs_of :: "OsmType \<Rightarrow> member list \<Rightarrow> osmid_t list" where
  "refs_of ty ms = map m_id (filter (\<lambda>m. m_type m = ty) ms)"

subsection \<open>The second pass\<close>

text \<open>What \<^verbatim>\<open>pgsql_endCopy\<close> and the read paths leave alone.\<close>

definition same_client :: "middle_pgsql_t \<Rightarrow> middle_pgsql_t \<Rightarrow> bool" where
  "same_client st st' =
     (ways_pending_tracker st' = ways_pending_tracker st
      \<and> rels_pending_tracker st' = rels_pending_tracker st
      \<and> Append st' = Append st
      \<and> out_options st' = out_options st
      \<and> cache st' = cache st
      \<and> persistent_cache st' = persistent_cache st)"

lemma same_client_refl: "same_client st st"
  by (simp add: same_client_def)

lemma same_client_trans: "same_client a b \<Longrightarrow> same_client b c \<Longrightarrow> same_client a c"
  by (simp add: same_client_def)

lemma pgsql_endCopy_same_client:
  assumes "pgsql_endCopy t st = Inr st'"
  shows "same_client st st'"
  using assms
  by (cases t) (auto simp: pgsql_endCopy_def same_client_def split: if_splits option.splits)

lemma nodes_get_list_same_client:
  assumes "nodes_get_list nodes ndids nd_count st = Inr (r, st')"
  shows "same_client st st'"
proof (cases "flat_node_cache_enabled (out_options st)")
  case True
  with assms show ?thesis by (simp add: nodes_get_list_def same_client_refl)
next
  case False
  with assms have l: "local_nodes_get_list nodes ndids nd_count st = Inr (r, st')"
    by (simp add: nodes_get_list_def)
  obtain n1 c1 cdb q where cp: "cache_pass (cache st) ndids nd_count nodes = (n1, c1, cdb, q)"
    by (rule prod_cases4)
  show ?thesis
  proof (cases "cdb = 0")
    case True
    with l cp show ?thesis by (simp add: local_nodes_get_list_def same_client_refl)
  next
    case False
    with l cp obtain st1 where "pgsql_endCopy t_node st = Inr st1" and "st' = st1"
      by (auto simp: local_nodes_get_list_def and_then_def split: sum.splits prod.splits)
    then show ?thesis using pgsql_endCopy_same_client by simp
  qed
qed

lemma ways_get_same_client:
  assumes "ways_get i st = Inr (r, st')"
  shows "same_client st st'"
proof -
  from assms obtain st1 where e: "pgsql_endCopy t_way st = Inr st1"
    and x: "pgsql_execPrepared t_way st1 = Inr ()"
    and c: "(case get_way (ways_rows st1) i of
          [w] \<Rightarrow>
            and_then
              (nodes_get_list (replicate (length (w_nodes w)) \<lparr> lat = NaN, lon = NaN \<rparr>)
                 (w_nodes w) (length (w_nodes w)) st1)
              (\<lambda>((nodes, count), st2). Inr (Some (w_tags w, nodes, count), st2))
        | _ \<Rightarrow> Inr (None, st1)) = Inr (r, st')"
    by (auto simp: ways_get_def and_then_def split: sum.splits)
  have "same_client st1 st'"
  proof (cases "get_way (ways_rows st1) i")
    case Nil
    with c show ?thesis by (simp add: same_client_refl)
  next
    case (Cons w ws)
    show ?thesis
    proof (cases ws)
      case Nil
      with c Cons obtain ns cnt where
        "nodes_get_list (replicate (length (w_nodes w)) \<lparr> lat = NaN, lon = NaN \<rparr>)
           (w_nodes w) (length (w_nodes w)) st1 = Inr ((ns, cnt), st')"
        by (auto simp: and_then_def split: sum.splits)
      then show ?thesis by (rule nodes_get_list_same_client)
    next
      case (Cons w' ws')
      with c \<open>get_way (ways_rows st1) i = w # ws\<close> show ?thesis
        by (simp add: same_client_refl)
    qed
  qed
  with pgsql_endCopy_same_client[OF e] show ?thesis by (rule same_client_trans)
qed

lemma relations_get_same_client:
  assumes "relations_get i st = Inr (r, st')"
  shows "same_client st st'"
proof -
  from assms obtain st1 where e: "pgsql_endCopy t_rel st = Inr st1" and "st' = st1"
    by (auto simp: relations_get_def and_then_def
        split: sum.splits list.splits option.splits members_result.splits)
  then show ?thesis using pgsql_endCopy_same_client by simp
qed

lemma pop_mark_shorter:
  assumes "fst (pop_mark pick t) \<noteq> ID_NONE"
  shows "length (snd (pop_mark pick t)) < length t"
proof -
  from assms have ne: "t \<noteq> []" by (auto simp: pop_mark_def)
  then have "pick t mod length t < length t" by simp
  then have "length (take (pick t mod length t) t @ drop (Suc (pick t mod length t)) t)
      < length t"
    by simp
  with ne show ?thesis by (simp add: pop_mark_def)
qed

text \<open>
  The calls of the output callback, in order: for a way the id, the tags, the nodes, their
  number and the flag \<^verbatim>\<open>exists\<close>; for a relation the id, the members, their number, the
  tags and the flag. The callback itself belongs to the output stage.
\<close>

type_synonym way_cb = "osmid_t \<times> keyval \<times> osmNode list \<times> nat \<times> bool"

type_synonym rel_cb = "osmid_t \<times> member list \<times> int \<times> keyval \<times> bool"

text \<open>
  The loop of \<^verbatim>\<open>iterate_ways\<close>: pop a pending id until \<open>ID_NONE\<close> comes; fetch the way;
  call back when \<^verbatim>\<open>ways_get\<close> returned 0.
\<close>

function iterate_ways_loop ::
  "(osmid_t list \<Rightarrow> nat) \<Rightarrow> way_cb list \<Rightarrow> middle_pgsql_t
     \<Rightarrow> fatal + (way_cb list \<times> middle_pgsql_t)" where
  "iterate_ways_loop pick calls st =
     (if fst (pop_mark pick (ways_pending_tracker st)) = ID_NONE
      then Inr (calls, st\<lparr> ways_pending_tracker := snd (pop_mark pick (ways_pending_tracker st)) \<rparr>)
      else
        (case ways_get (fst (pop_mark pick (ways_pending_tracker st)))
                (st\<lparr> ways_pending_tracker := snd (pop_mark pick (ways_pending_tracker st)) \<rparr>) of
           Inl e \<Rightarrow> Inl e
         | Inr (None, st2) \<Rightarrow> iterate_ways_loop pick calls st2
         | Inr (Some (tags, nodes, nd_count), st2) \<Rightarrow>
             iterate_ways_loop pick
               (calls @ [(fst (pop_mark pick (ways_pending_tracker st)), tags, nodes, nd_count,
                          Append st)])
               st2))"
  by pat_completeness auto
termination
proof (relation "measure (\<lambda>(pick, calls, st). length (ways_pending_tracker st))")
  show "wf (measure (\<lambda>(pick, calls, st). length (ways_pending_tracker st)))" by simp
next
  fix pick :: "osmid_t list \<Rightarrow> nat" and calls :: "way_cb list" and st :: middle_pgsql_t
    and x2 x1 st2
  assume ne: "fst (pop_mark pick (ways_pending_tracker st)) \<noteq> ID_NONE"
    and g: "ways_get (fst (pop_mark pick (ways_pending_tracker st)))
              (st\<lparr> ways_pending_tracker := snd (pop_mark pick (ways_pending_tracker st)) \<rparr>)
            = Inr x2"
      "(x1, st2) = x2"
  from g have "ways_pending_tracker st2 = snd (pop_mark pick (ways_pending_tracker st))"
    using ways_get_same_client[of _ _ x1 st2] by (auto simp: same_client_def)
  with pop_mark_shorter[OF ne]
  show "((pick, calls, st2), pick, calls, st)
      \<in> measure (\<lambda>(pick, calls, st). length (ways_pending_tracker st))"
    by simp
next
  fix pick :: "osmid_t list \<Rightarrow> nat" and calls :: "way_cb list" and st :: middle_pgsql_t
    and x2 x1 st2 x2a tags y nodes nd_count
  assume ne: "fst (pop_mark pick (ways_pending_tracker st)) \<noteq> ID_NONE"
    and g: "ways_get (fst (pop_mark pick (ways_pending_tracker st)))
              (st\<lparr> ways_pending_tracker := snd (pop_mark pick (ways_pending_tracker st)) \<rparr>)
            = Inr x2"
      "(x1, st2) = x2"
  from g have "ways_pending_tracker st2 = snd (pop_mark pick (ways_pending_tracker st))"
    using ways_get_same_client[of _ _ x1 st2] by (auto simp: same_client_def)
  with pop_mark_shorter[OF ne]
  show "((pick, calls @ [(fst (pop_mark pick (ways_pending_tracker st)), tags, nodes, nd_count,
                          Append st)], st2), pick, calls, st)
      \<in> measure (\<lambda>(pick, calls, st). length (ways_pending_tracker st))"
    by simp
qed

declare iterate_ways_loop.simps [simp del]

text \<open>
  \<^verbatim>\<open>iterate_ways\<close>: out of COPY mode, then the loop. (The persistent cache is reopened
  in append mode, which keeps its content; progress is printed.)
\<close>

definition iterate_ways ::
  "(osmid_t list \<Rightarrow> nat) \<Rightarrow> middle_pgsql_t \<Rightarrow> fatal + (way_cb list \<times> middle_pgsql_t)" where
  "iterate_ways pick st =
     and_then (pgsql_endCopy t_way st) (\<lambda>st1. iterate_ways_loop pick [] st1)"

function iterate_relations_loop ::
  "(osmid_t list \<Rightarrow> nat) \<Rightarrow> rel_cb list \<Rightarrow> middle_pgsql_t
     \<Rightarrow> fatal + (rel_cb list \<times> middle_pgsql_t)" where
  "iterate_relations_loop pick calls st =
     (if fst (pop_mark pick (rels_pending_tracker st)) = ID_NONE
      then Inr (calls, st\<lparr> rels_pending_tracker := snd (pop_mark pick (rels_pending_tracker st)) \<rparr>)
      else
        (case relations_get (fst (pop_mark pick (rels_pending_tracker st)))
                (st\<lparr> rels_pending_tracker := snd (pop_mark pick (rels_pending_tracker st)) \<rparr>) of
           Inl e \<Rightarrow> Inl e
         | Inr (None, st2) \<Rightarrow> iterate_relations_loop pick calls st2
         | Inr (Some (ms, member_count, tags), st2) \<Rightarrow>
             iterate_relations_loop pick
               (calls @ [(fst (pop_mark pick (rels_pending_tracker st)), ms, member_count, tags,
                          Append st)])
               st2))"
  by pat_completeness auto
termination
proof (relation "measure (\<lambda>(pick, calls, st). length (rels_pending_tracker st))")
  show "wf (measure (\<lambda>(pick, calls, st). length (rels_pending_tracker st)))" by simp
next
  fix pick :: "osmid_t list \<Rightarrow> nat" and calls :: "rel_cb list" and st :: middle_pgsql_t
    and x2 x1 st2
  assume ne: "fst (pop_mark pick (rels_pending_tracker st)) \<noteq> ID_NONE"
    and g: "relations_get (fst (pop_mark pick (rels_pending_tracker st)))
              (st\<lparr> rels_pending_tracker := snd (pop_mark pick (rels_pending_tracker st)) \<rparr>)
            = Inr x2"
      "(x1, st2) = x2"
  from g have "rels_pending_tracker st2 = snd (pop_mark pick (rels_pending_tracker st))"
    using relations_get_same_client[of _ _ x1 st2] by (auto simp: same_client_def)
  with pop_mark_shorter[OF ne]
  show "((pick, calls, st2), pick, calls, st)
      \<in> measure (\<lambda>(pick, calls, st). length (rels_pending_tracker st))"
    by simp
next
  fix pick :: "osmid_t list \<Rightarrow> nat" and calls :: "rel_cb list" and st :: middle_pgsql_t
    and x2 x1 st2 x2a ms y member_count tags
  assume ne: "fst (pop_mark pick (rels_pending_tracker st)) \<noteq> ID_NONE"
    and g: "relations_get (fst (pop_mark pick (rels_pending_tracker st)))
              (st\<lparr> rels_pending_tracker := snd (pop_mark pick (rels_pending_tracker st)) \<rparr>)
            = Inr x2"
      "(x1, st2) = x2"
  from g have "rels_pending_tracker st2 = snd (pop_mark pick (rels_pending_tracker st))"
    using relations_get_same_client[of _ _ x1 st2] by (auto simp: same_client_def)
  with pop_mark_shorter[OF ne]
  show "((pick, calls @ [(fst (pop_mark pick (rels_pending_tracker st)), ms, member_count, tags,
                          Append st)], st2), pick, calls, st)
      \<in> measure (\<lambda>(pick, calls, st). length (rels_pending_tracker st))"
    by simp
qed

declare iterate_relations_loop.simps [simp del]

definition iterate_relations ::
  "(osmid_t list \<Rightarrow> nat) \<Rightarrow> middle_pgsql_t \<Rightarrow> fatal + (rel_cb list \<times> middle_pgsql_t)" where
  "iterate_relations pick st =
     and_then (pgsql_endCopy t_rel st) (\<lambda>st1. iterate_relations_loop pick [] st1)"

subsection \<open>Start, commit and stop\<close>

text \<open>
  \<^verbatim>\<open>start\<close>: new trackers and a new RAM cache; every table gets a connection, is
  dropped unless in append mode, begins a transaction and then a COPY. (The exits of
  \<^verbatim>\<open>start\<close> on a failed connection or an unsuitable database are not modelled.)
\<close>

definition start :: "options_t \<Rightarrow> middle_pgsql_t \<Rightarrow> fatal + middle_pgsql_t" where
  "start options st =
     Inr (st\<lparr> out_options := options,
              ways_pending_tracker := [],
              rels_pending_tracker := [],
              Append := append_opt options,
              build_indexes := \<not> append_opt options,
              cache := Map.empty,
              persistent_cache :=
                (if flat_node_cache_enabled options \<and> \<not> append_opt options
                 then Map.empty else persistent_cache st),
              nodes_rows := (if append_opt options then nodes_rows st else []),
              ways_rows := (if append_opt options then ways_rows st else []),
              rels_rows := (if append_opt options then rels_rows st else []),
              nodes_copy := [], ways_copy := [], rels_copy := [],
              node_table := \<lparr> copyMode = True, transactionMode = True, sql_conn = True \<rparr>,
              way_table := \<lparr> copyMode = True, transactionMode = True, sql_conn = True \<rparr>,
              rel_table := \<lparr> copyMode = True, transactionMode = True, sql_conn = True \<rparr> \<rparr>)"

definition commit_table :: "table_id \<Rightarrow> middle_pgsql_t \<Rightarrow> fatal + middle_pgsql_t" where
  "commit_table t st =
     and_then (pgsql_endCopy t st)
       (\<lambda>st1. Inr (set_table t ((table_of t st1)\<lparr> transactionMode := False \<rparr>) st1))"

definition commit :: "middle_pgsql_t \<Rightarrow> fatal + middle_pgsql_t" where
  "commit st = fold_result commit_table [t_node, t_way, t_rel] st"

text \<open>\<^verbatim>\<open>end\<close> commits the open transactions; it does not end a COPY.\<close>

definition end_middle :: "middle_pgsql_t \<Rightarrow> fatal + middle_pgsql_t" where
  "end_middle st =
     Inr (fold (\<lambda>t s. set_table t ((table_of t s)\<lparr> transactionMode := False \<rparr>) s)
            [t_node, t_way, t_rel] st)"

definition analyze :: "middle_pgsql_t \<Rightarrow> fatal + middle_pgsql_t" where
  "analyze st = Inr st"

text \<open>
  \<^verbatim>\<open>pgsql_stop_one\<close>: out of COPY mode, the indexes are built or the table is dropped,
  and the connection is closed.
\<close>

fun drop_table :: "table_id \<Rightarrow> middle_pgsql_t \<Rightarrow> middle_pgsql_t" where
  "drop_table t_node st = st\<lparr> nodes_rows := [] \<rparr>"
| "drop_table t_way st = st\<lparr> ways_rows := [] \<rparr>"
| "drop_table t_rel st = st\<lparr> rels_rows := [] \<rparr>"

definition pgsql_stop_one :: "table_id \<Rightarrow> middle_pgsql_t \<Rightarrow> fatal + middle_pgsql_t" where
  "pgsql_stop_one t st =
     and_then (pgsql_endCopy t st)
       (\<lambda>st1. Inr (set_table t ((table_of t st1)\<lparr> sql_conn := False \<rparr>)
                     (if droptemp (out_options st1) then drop_table t st1 else st1)))"

definition stop :: "middle_pgsql_t \<Rightarrow> fatal + middle_pgsql_t" where
  "stop st =
     fold_result pgsql_stop_one [t_node, t_way, t_rel] (st\<lparr> cache := Map.empty \<rparr>)"

definition cleanup :: "middle_pgsql_t \<Rightarrow> fatal + middle_pgsql_t" where
  "cleanup st =
     Inr (fold (\<lambda>t s. set_table t ((table_of t s)\<lparr> sql_conn := False \<rparr>) s)
            [t_node, t_way, t_rel] st)"

subsection \<open>Sequences of calls\<close>

datatype middle_call =
  Start options_t
  | Nodes_set osmid_t coord coord keyval
  | Nodes_get_list "osmNode list" "osmid_t list" nat
  | Nodes_delete osmid_t
  | Node_changed osmid_t
  | Ways_set osmid_t "osmid_t list" keyval
  | Ways_get osmid_t
  | Ways_get_list "osmid_t list"
  | Ways_delete osmid_t
  | Iterate_ways "osmid_t list \<Rightarrow> nat"
  | Way_changed osmid_t
  | Relations_set osmid_t "member list" keyval
  | Relations_get osmid_t
  | Relations_delete osmid_t
  | Iterate_relations "osmid_t list \<Rightarrow> nat"
  | Relation_changed osmid_t
  | Relations_using_way osmid_t
  | Analyze
  | End
  | Commit
  | Stop
  | Cleanup

text \<open>One call; what it returns beside the state is dropped.\<close>

definition forget :: "fatal + ('a \<times> middle_pgsql_t) \<Rightarrow> fatal + middle_pgsql_t" where
  "forget r = and_then r (\<lambda>(x, st). Inr st)"

fun do_call :: "middle_call \<Rightarrow> middle_pgsql_t \<Rightarrow> fatal + middle_pgsql_t" where
  "do_call (Start options) st = start options st"
| "do_call (Nodes_set i la lo tags) st = nodes_set i la lo tags st"
| "do_call (Nodes_get_list nodes ndids nd_count) st =
     forget (nodes_get_list nodes ndids nd_count st)"
| "do_call (Nodes_delete i) st = nodes_delete i st"
| "do_call (Node_changed i) st = node_changed i st"
| "do_call (Ways_set i nds tags) st = ways_set i nds tags st"
| "do_call (Ways_get i) st = forget (ways_get i st)"
| "do_call (Ways_get_list ids) st = forget (ways_get_list ids st)"
| "do_call (Ways_delete i) st = ways_delete i st"
| "do_call (Iterate_ways pick) st = forget (iterate_ways pick st)"
| "do_call (Way_changed i) st = way_changed i st"
| "do_call (Relations_set i ms tags) st = relations_set i ms tags st"
| "do_call (Relations_get i) st = forget (relations_get i st)"
| "do_call (Relations_delete i) st = relations_delete i st"
| "do_call (Iterate_relations pick) st = forget (iterate_relations pick st)"
| "do_call (Relation_changed i) st = relation_changed i st"
| "do_call (Relations_using_way i) st = forget (relations_using_way i st)"
| "do_call Analyze st = analyze st"
| "do_call End st = end_middle st"
| "do_call Commit st = commit st"
| "do_call Stop st = stop st"
| "do_call Cleanup st = cleanup st"

definition do_calls :: "middle_call list \<Rightarrow> middle_pgsql_t \<Rightarrow> fatal + middle_pgsql_t" where
  "do_calls calls st = fold_result do_call calls st"

text \<open>The state a constructed \<^verbatim>\<open>middle_pgsql_t\<close> is in, over a store with the given tables.\<close>

definition constructed ::
  "node_row list \<Rightarrow> way_row list \<Rightarrow> rel_row list \<Rightarrow> options_t \<Rightarrow> middle_pgsql_t" where
  "constructed ns ws rs options =
     \<lparr> node_table = \<lparr> copyMode = False, transactionMode = False, sql_conn = False \<rparr>,
       way_table = \<lparr> copyMode = False, transactionMode = False, sql_conn = False \<rparr>,
       rel_table = \<lparr> copyMode = False, transactionMode = False, sql_conn = False \<rparr>,
       nodes_rows = ns, ways_rows = ws, rels_rows = rs,
       nodes_copy = [], ways_copy = [], rels_copy = [],
       Append = False,
       cache = Map.empty,
       persistent_cache = Map.empty,
       out_options = options,
       ways_pending_tracker = [],
       rels_pending_tracker = [],
       build_indexes = False \<rparr>"

text \<open>A result that is not one of the two violations of the protocol of the store.\<close>

definition safe :: "fatal + 'a \<Rightarrow> bool" where
  "safe r = (r \<noteq> Inl PreparedInCopyMode \<and> r \<noteq> Inl CopyDataOutsideCopy)"




subsection \<open>Example data\<close>

definition example_options :: options_t where
  "example_options =
     \<lparr> append_opt = True, prefix = ''osm'', tblsslim_data = None,
       tblsslim_index = Some ''fast'', unlogged = True,
       flat_node_cache_enabled = False, droptemp = False \<rparr>"


definition example_members :: "member list" where
  "example_members =
     [\<lparr> m_type = OSMTYPE_NODE, m_id = 1, m_role = ''a'' \<rparr>,
      \<lparr> m_type = OSMTYPE_WAY, m_id = 10, m_role = ''b'' \<rparr>,
      \<lparr> m_type = OSMTYPE_NODE, m_id = 2, m_role = ''c'' \<rparr>,
      \<lparr> m_type = OSMTYPE_RELATION, m_id = 20, m_role = ''d'' \<rparr>]"

text \<open>
  A middle layer in append mode whose tables are connected and idle, outside a
  transaction (as after \<^verbatim>\<open>commit\<close>): way 10 with the nodes 1 and 2, and relation 300
  with the node member 1 and the way member 10.
\<close>

definition example_middle :: middle_pgsql_t where
  "example_middle =
     \<lparr> node_table = \<lparr> copyMode = False, transactionMode = False, sql_conn = True \<rparr>,
       way_table = \<lparr> copyMode = False, transactionMode = False, sql_conn = True \<rparr>,
       rel_table = \<lparr> copyMode = False, transactionMode = False, sql_conn = True \<rparr>,
       nodes_rows = [\<lparr> n_id = 1, n_lat = Val 1, n_lon = Val 1, n_tags = [] \<rparr>,
                     \<lparr> n_id = 2, n_lat = Val 2, n_lon = Val 2, n_tags = [] \<rparr>],
       ways_rows = [\<lparr> w_id = 10, w_nodes = [1, 2], w_tags = [(''highway'', ''residential'')] \<rparr>],
       rels_rows = [\<lparr> r_id = 300, way_off = 1, rel_off = 2, parts = [1, 10],
                      members = [(''n1'', ''a''), (''w10'', ''b'')], r_tags = [] \<rparr>],
       nodes_copy = [], ways_copy = [], rels_copy = [],
       Append = True,
       cache = Map.empty,
       persistent_cache = Map.empty,
       out_options = example_options,
       ways_pending_tracker = [],
       rels_pending_tracker = [],
       build_indexes = False \<rparr>"

definition example_calls :: "middle_call list" where
  "example_calls =
     [Start example_options, Ways_set 10 [1, 2] [], Relations_set 300 example_members [],
      Node_changed 1, Ways_get 10, Nodes_set 1 (Val 1) (Val 1) [], Commit]"



section \<open>Properties of the array codec\<close>

text \<open>
  C2. The claim: decoding the encoded array literal returns the list, each of the five
  escaped characters (double quote, backslash, newline, carriage return, tab) being
  restored by \<^verbatim>\<open>decode_upto\<close>. On the code the carriage return is not restored:
  \<^verbatim>\<open>escape_tag\<close> writes it as a backslash and the letter r, and \<^verbatim>\<open>decode_upto\<close>, which
  knows the letters n and t only, reads that back as the letter r. The other four
  characters come back as they were.
\<close>

theorem decode_encode_carriage_return:
  "decode_encode [(''k'', [CHR ''a'', creturn, CHR ''b''])] = Some [(''k'', ''arb'')]
   \<and> decode_encode [(''k'', [dquote, backslash, newline, tabchar])]
       = Some [(''k'', [dquote, backslash, newline, tabchar])]"
  by (simp add: decode_encode_def pgsql_store_tags_def pgsql_parse_tags_def decode_upto_def)

subsection \<open>Decimal text of ids read back\<close>






















section \<open>Properties of the template substitution\<close>
















section \<open>Properties of the change propagation and of the stored relations\<close>

lemma relations_set_loop_parts:
  "relations_set_loop ms (np, wp, rp, ml) = Inr (np', wp', rp', ml')
   \<Longrightarrow> np' = np @ map m_id (filter (\<lambda>m. m_type m = OSMTYPE_NODE) ms)
     \<and> wp' = wp @ map m_id (filter (\<lambda>m. m_type m = OSMTYPE_WAY) ms)
     \<and> rp' = rp @ map m_id (filter (\<lambda>m. m_type m = OSMTYPE_RELATION) ms)
     \<and> length ml' = length ml + length ms"
proof (induction ms arbitrary: np wp rp ml)
  case Nil
  then show ?case by simp
next
  case (Cons m ms)
  show ?case
  proof (cases "m_type m")
    case OSMTYPE_NODE
    with Cons.prems Cons.IH[of "np @ [m_id m]" wp rp
        "ml @ [(CHR ''n'' # sprintf_osmid (m_id m), m_role m)]"]
    show ?thesis by simp
  next
    case OSMTYPE_WAY
    with Cons.prems Cons.IH[of np "wp @ [m_id m]" rp
        "ml @ [(CHR ''w'' # sprintf_osmid (m_id m), m_role m)]"]
    show ?thesis by simp
  next
    case OSMTYPE_RELATION
    with Cons.prems Cons.IH[of np wp "rp @ [m_id m]"
        "ml @ [(CHR ''r'' # sprintf_osmid (m_id m), m_role m)]"]
    show ?thesis by simp
  next
    case OSMTYPE_INVALID
    with Cons.prems show ?thesis by simp
  qed
qed

lemma relations_set_loop_total:
  "\<forall>m \<in> set ms. m_type m \<noteq> OSMTYPE_INVALID \<Longrightarrow> \<exists>r. relations_set_loop ms acc = Inr r"
proof (induction ms arbitrary: acc)
  case Nil
  show ?case by (rule exI[of _ acc]) simp
next
  case (Cons m ms)
  obtain np wp rp ml where acc: "acc = (np, wp, rp, ml)" by (rule prod_cases4)
  from Cons.prems have "m_type m \<noteq> OSMTYPE_INVALID" and rest: "\<forall>m \<in> set ms. m_type m \<noteq> OSMTYPE_INVALID"
    by auto
  then show ?case
    using Cons.IH[OF rest] by (cases "m_type m") (simp_all add: acc)
qed

lemma relation_row_parts:
  assumes "relation_row i ms tags = Inr row"
  shows "r_id row = i
       \<and> way_off row = int (length (refs_of OSMTYPE_NODE ms))
       \<and> rel_off row = int (length (refs_of OSMTYPE_NODE ms)) + int (length (refs_of OSMTYPE_WAY ms))
       \<and> parts row = refs_of OSMTYPE_NODE ms @ refs_of OSMTYPE_WAY ms @ refs_of OSMTYPE_RELATION ms"
proof -
  from assms obtain np wp rp ml where
    l: "relations_set_loop ms ([], [], [], []) = Inr (np, wp, rp, ml)"
    and row: "row = \<lparr> r_id = i, way_off = int (length np),
                rel_off = int (length np) + int (length wp),
                parts = np @ wp @ rp, members = ml, r_tags = tags \<rparr>"
    by (auto simp: relation_row_def and_then_def split: sum.splits)
  from relations_set_loop_parts[OF l] show ?thesis
    by (simp add: row refs_of_def)
qed


lemma relations_set_row:
  assumes "relations_set i ms tags st = Inr st'"
  shows "\<exists>row. relation_row i ms tags = Inr row
           \<and> (rels_copy st' = rels_copy st @ [row] \<and> rels_rows st' = rels_rows st
              \<or> rels_rows st' = rels_rows st @ [row] \<and> rels_copy st' = rels_copy st)"
  using assms
  by (auto simp: relations_set_def and_then_def insert_rel_def pgsql_CopyData_def
      pgsql_execPrepared_def split: sum.splits if_splits)

text \<open>
  C5. For every member list given to \<^verbatim>\<open>relations_set\<close>, the row it sends to the store
  (appended to the table, or to the rows of the open COPY) has \<open>way_off\<close> the number of
  node members and \<open>rel_off\<close> the number of node and way members, with
  \<open>0 \<le> way_off \<le> rel_off \<le> |parts|\<close>, and \<open>parts\<close> is the node refs, then the way refs,
  then the relation refs, each group in the order of the member list; the slices that
  the queries of the store take from \<open>parts\<close> are these groups. A row is built whenever
  every member has one of the three types (any other type ends the process).
\<close>

theorem relations_set_offsets:
  "(\<forall>st st'. relations_set i ms tags st = Inr st'
       \<longrightarrow> (\<exists>row. relation_row i ms tags = Inr row
              \<and> (rels_copy st' = rels_copy st @ [row] \<and> rels_rows st' = rels_rows st
                 \<or> rels_rows st' = rels_rows st @ [row] \<and> rels_copy st' = rels_copy st)))
   \<and> (\<forall>row. relation_row i ms tags = Inr row
       \<longrightarrow> r_id row = i
         \<and> way_off row = int (length (refs_of OSMTYPE_NODE ms))
         \<and> rel_off row = int (length (refs_of OSMTYPE_NODE ms))
                          + int (length (refs_of OSMTYPE_WAY ms))
         \<and> 0 \<le> way_off row \<and> way_off row \<le> rel_off row
         \<and> rel_off row \<le> int (length (parts row))
         \<and> parts row = refs_of OSMTYPE_NODE ms @ refs_of OSMTYPE_WAY ms
                        @ refs_of OSMTYPE_RELATION ms
         \<and> take (nat (way_off row)) (parts row) = refs_of OSMTYPE_NODE ms
         \<and> way_slice row = refs_of OSMTYPE_WAY ms
         \<and> rel_slice row = refs_of OSMTYPE_RELATION ms)
   \<and> ((\<forall>m \<in> set ms. m_type m \<noteq> OSMTYPE_INVALID) \<longrightarrow> (\<exists>row. relation_row i ms tags = Inr row))"
proof (intro conjI allI impI)
  fix st st' assume "relations_set i ms tags st = Inr st'"
  then show "\<exists>row. relation_row i ms tags = Inr row
              \<and> (rels_copy st' = rels_copy st @ [row] \<and> rels_rows st' = rels_rows st
                 \<or> rels_rows st' = rels_rows st @ [row] \<and> rels_copy st' = rels_copy st)"
    by (rule relations_set_row)
next
  assume "\<forall>m \<in> set ms. m_type m \<noteq> OSMTYPE_INVALID"
  from relations_set_loop_total[OF this, of "([], [], [], [])"]
  show "\<exists>row. relation_row i ms tags = Inr row"
    by (auto simp: relation_row_def and_then_def)
next
  fix row assume r: "relation_row i ms tags = Inr row"
  note p = relation_row_parts[OF r]
  from p show "r_id row = i" by simp
  from p show "way_off row = int (length (refs_of OSMTYPE_NODE ms))" by simp
  from p show "rel_off row = int (length (refs_of OSMTYPE_NODE ms))
                          + int (length (refs_of OSMTYPE_WAY ms))" by simp
  from p show "0 \<le> way_off row" by simp
  from p show "way_off row \<le> rel_off row" by simp
  from p show "rel_off row \<le> int (length (parts row))" by simp
  from p show "parts row = refs_of OSMTYPE_NODE ms @ refs_of OSMTYPE_WAY ms
                        @ refs_of OSMTYPE_RELATION ms" by simp
  from p show "take (nat (way_off row)) (parts row) = refs_of OSMTYPE_NODE ms" by simp
  from p show "way_slice row = refs_of OSMTYPE_WAY ms" by (simp add: way_slice_def)
  from p show "rel_slice row = refs_of OSMTYPE_RELATION ms" by (simp add: rel_slice_def)
qed

text \<open>
  C5, witness: relation 300 with the members (N,1,a), (W,10,b), (N,2,c), (R,20,d) is
  stored with \<open>way_off = 2\<close>, \<open>rel_off = 3\<close> and \<open>parts = [1,2,10,20]\<close>.
\<close>

theorem relations_set_offsets_witness:
  "(\<exists>row. relation_row 300 example_members [] = Inr row
       \<and> way_off row = 2 \<and> rel_off row = 3 \<and> parts row = [1, 2, 10, 20])
   \<and> (\<exists>st' row. relations_set 300 example_members []
                   (example_middle \<lparr> rels_rows := [] \<rparr>) = Inr st'
         \<and> rels_rows st' = [row] \<and> way_off row = 2 \<and> rel_off row = 3
         \<and> parts row = [1, 2, 10, 20])"
proof -
  note t = relations_set_offsets[of 300 example_members "[]"]
  have v: "\<forall>m \<in> set example_members. m_type m \<noteq> OSMTYPE_INVALID"
    by (simp add: example_members_def)
  have n: "refs_of OSMTYPE_NODE example_members = [1, 2]"
    and w: "refs_of OSMTYPE_WAY example_members = [10]"
    and r: "refs_of OSMTYPE_RELATION example_members = [20]"
    by (simp_all add: example_members_def refs_of_def)
  from t v obtain row where row: "relation_row 300 example_members [] = Inr row" by blast
  with t have p: "way_off row = 2 \<and> rel_off row = 3 \<and> parts row = [1, 2, 10, 20]"
    by (simp add: n w r)
  have "\<exists>st'. relations_set 300 example_members [] (example_middle \<lparr> rels_rows := [] \<rparr>) = Inr st'
      \<and> rels_rows st' = [row]"
    using row p
    by (simp add: relations_set_def and_then_def pgsql_execPrepared_def insert_rel_def
        example_middle_def rel_row_ok_def)
  with row p show ?thesis by blast
qed

text \<open>
  C1. The claim: \<^verbatim>\<open>node_changed(n)\<close> marks as pending the ways that contain \<open>n\<close> and
  the relations that have \<open>n\<close> as a node member, and no other id. On the code the
  pending relations receive what \<^verbatim>\<open>mark_rels_by_node\<close> returns, and that statement is
  prepared with the text of \<^verbatim>\<open>mark_ways_by_node\<close>: it selects from the ways table. In
  \<open>example_middle\<close>, where way 10 contains node 1 and relation 300 has node 1 as its
  node member, \<^verbatim>\<open>node_changed(1)\<close> marks way 10 as a pending way and the id 10, not
  300, as a pending relation.
\<close>

theorem node_changed_marks_way_ids:
  "\<exists>st. node_changed 1 example_middle = Inr st
        \<and> ways_pending_tracker st = [10] \<and> rels_pending_tracker st = [10]
        \<and> map r_id (rels_rows st) = [300]
        \<and> take (nat (way_off (hd (rels_rows st)))) (parts (hd (rels_rows st))) = [1]"
  by (simp add: node_changed_def and_then_def pgsql_endCopy_def exec_intarray_def
      pgsql_execPrepared_def example_middle_def mark_ways_by_node_def mark_rels_by_node_def
      mark_def)


section \<open>Prepared statements and COPY mode\<close>

lemma safe_Inr [simp]: "safe (Inr x)"
  by (simp add: safe_def)

lemma safe_Inl [simp]: "safe (Inl e) = (e \<noteq> PreparedInCopyMode \<and> e \<noteq> CopyDataOutsideCopy)"
  by (simp add: safe_def)

lemma safe_and_then:
  assumes "safe m" and "\<And>x. m = Inr x \<Longrightarrow> safe (f x)"
  shows "safe (and_then m f)"
  using assms by (cases m) (auto simp: and_then_def)

lemma safe_fold_result:
  assumes "\<And>x s. safe (f x s)"
  shows "safe (fold_result f xs s)"
proof (induction xs arbitrary: s)
  case Nil
  then show ?case by simp
next
  case (Cons x xs)
  show ?case
    unfolding fold_result.simps
    by (rule safe_and_then) (use assms Cons.IH in auto)
qed

lemma safe_forget: "safe r \<Longrightarrow> safe (forget r)"
  by (cases r) (auto simp: forget_def and_then_def)

lemma safe_pgsql_endCopy: "safe (pgsql_endCopy t st)"
  by (simp add: pgsql_endCopy_def split: option.splits)

lemma pgsql_endCopy_idle:
  assumes "pgsql_endCopy t st = Inr st'"
  shows "\<not> copyMode (table_of t st')"
  using assms
  by (cases t) (auto simp: pgsql_endCopy_def split: if_splits option.splits)

lemma pgsql_endCopy_other:
  assumes "pgsql_endCopy t st = Inr st'" and "t' \<noteq> t"
  shows "table_of t' st' = table_of t' st"
  using assms
  by (cases t; cases t') (auto simp: pgsql_endCopy_def split: if_splits option.splits)

lemma safe_pgsql_execPrepared:
  "\<not> copyMode (table_of t st) \<Longrightarrow> safe (pgsql_execPrepared t st)"
  by (simp add: pgsql_execPrepared_def)

lemma safe_exec_intarray:
  "\<not> copyMode (table_of t st) \<Longrightarrow> safe (exec_intarray t st)"
  by (simp add: exec_intarray_def and_then_def pgsql_execPrepared_def)

lemma safe_insert:
  "safe (insert_node nr st)" "safe (insert_way wr st)" "safe (insert_rel rr st)"
  by (simp_all add: insert_node_def insert_way_def insert_rel_def)

lemma safe_endCopy_exec:
  assumes "\<And>st1. pgsql_endCopy t st = Inr st1 \<Longrightarrow> \<not> copyMode (table_of t st1) \<Longrightarrow> safe (f st1)"
  shows "safe (and_then (pgsql_endCopy t st)
                 (\<lambda>st1. and_then (pgsql_execPrepared t st1) (\<lambda>_. f st1)))"
proof (rule safe_and_then[OF safe_pgsql_endCopy])
  fix st1 assume e: "pgsql_endCopy t st = Inr st1"
  from pgsql_endCopy_idle[OF e]
  show "safe (and_then (pgsql_execPrepared t st1) (\<lambda>_. f st1))"
    by (intro safe_and_then safe_pgsql_execPrepared assms[OF e])
qed

lemma safe_endCopy_intarray:
  assumes "\<And>st1. pgsql_endCopy t st = Inr st1 \<Longrightarrow> \<not> copyMode (table_of t st1) \<Longrightarrow> safe (f st1)"
  shows "safe (and_then (pgsql_endCopy t st)
                 (\<lambda>st1. and_then (exec_intarray t st1) (\<lambda>_. f st1)))"
proof (rule safe_and_then[OF safe_pgsql_endCopy])
  fix st1 assume e: "pgsql_endCopy t st = Inr st1"
  from pgsql_endCopy_idle[OF e]
  show "safe (and_then (exec_intarray t st1) (\<lambda>_. f st1))"
    by (intro safe_and_then safe_exec_intarray assms[OF e])
qed

lemma safe_local_nodes_get_list: "safe (local_nodes_get_list nodes ndids nd_count st)"
proof -
  obtain n1 c1 cdb q where cp: "cache_pass (cache st) ndids nd_count nodes = (n1, c1, cdb, q)"
    by (rule prod_cases4)
  show ?thesis
  proof (cases "cdb = 0")
    case True
    then show ?thesis by (simp add: local_nodes_get_list_def cp)
  next
    case False
    have "safe (and_then (pgsql_endCopy t_node st) (\<lambda>st1.
            and_then (pgsql_execPrepared t_node st1) (\<lambda>_.
              (case match_pass (get_node_list (nodes_rows st1) q) ndids nd_count (n1, c1) of
                 (nodes2, count2) \<Rightarrow>
                   Inr ((if count2 \<noteq> nd_count then compact_pass nd_count nodes2 else nodes2,
                         count2), st1)))))"
      by (rule safe_endCopy_exec) (simp split: prod.splits)
    with False show ?thesis by (simp add: local_nodes_get_list_def cp)
  qed
qed

lemma safe_nodes_get_list: "safe (nodes_get_list nodes ndids nd_count st)"
  by (simp add: nodes_get_list_def safe_local_nodes_get_list)

lemma safe_resolve:
  "safe (and_then (nodes_get_list nodes ndids nd_count st) (\<lambda>((ns, count), st2). Inr (g ns count st2)))"
  by (rule safe_and_then[OF safe_nodes_get_list]) (simp split: prod.splits)

lemma safe_local_nodes_set: "safe (local_nodes_set i la lo tags st)"
  by (auto simp: local_nodes_set_def pgsql_CopyData_def pgsql_execPrepared_def and_then_def
      insert_node_def)

lemma safe_nodes_set: "safe (nodes_set i la lo tags st)"
  by (simp add: nodes_set_def safe_local_nodes_set)

lemma safe_nodes_delete: "safe (nodes_delete i st)"
  unfolding nodes_delete_def local_nodes_delete_def
  by (simp add: safe_endCopy_exec)

lemma safe_ways_set: "safe (ways_set i nds tags st)"
  by (auto simp: ways_set_def pgsql_CopyData_def pgsql_execPrepared_def and_then_def
      insert_way_def)

lemma safe_relations_set_loop: "safe (relations_set_loop ms acc)"
  by (induction ms acc rule: relations_set_loop.induct) (auto split: OsmType.splits)

lemma safe_relations_set: "safe (relations_set i ms tags st)"
  unfolding relations_set_def relation_row_def
  by (intro safe_and_then safe_relations_set_loop)
    (auto simp: pgsql_CopyData_def pgsql_execPrepared_def and_then_def insert_rel_def
      split: prod.splits)

lemma safe_ways_get: "safe (ways_get i st)"
  unfolding ways_get_def
  by (rule safe_endCopy_exec) (simp split: list.splits add: safe_resolve)

lemma safe_ways_get_list: "safe (ways_get_list ids st)"
proof (cases "length ids = 0")
  case True
  then show ?thesis by (simp add: ways_get_list_def)
next
  case False
  have "safe (and_then (pgsql_endCopy t_way st) (\<lambda>st1.
        and_then (pgsql_execPrepared t_way st1) (\<lambda>_.
          fold_result
            (\<lambda>i. fold_result
                    (\<lambda>w (out, s).
                       if i = w_id w then
                         and_then
                           (nodes_get_list
                              (replicate (length (w_nodes w)) \<lparr> lat = NaN, lon = NaN \<rparr>)
                              (w_nodes w) (length (w_nodes w)) s)
                           (\<lambda>((nodes, count), s'). Inr (out @ [(i, w_tags w, nodes, count)], s'))
                       else Inr (out, s))
                    (get_way_list (ways_rows st1) ids))
            ids ([], st1))))"
    by (rule safe_endCopy_exec) (intro safe_fold_result, simp split: prod.splits add: safe_resolve)
  with False show ?thesis by (simp add: ways_get_list_def)
qed

lemma safe_ways_delete: "safe (ways_delete i st)"
  unfolding ways_delete_def by (simp add: safe_endCopy_exec)

lemma safe_way_changed: "safe (way_changed i st)"
  unfolding way_changed_def by (simp add: safe_endCopy_intarray)

lemma safe_relation_changed: "safe (relation_changed i st)"
  unfolding relation_changed_def by (simp add: safe_endCopy_intarray)

lemma safe_relations_using_way: "safe (relations_using_way i st)"
  unfolding relations_using_way_def by (simp add: safe_endCopy_intarray)

lemma safe_relations_get: "safe (relations_get i st)"
  unfolding relations_get_def
  by (rule safe_endCopy_exec)
    (simp split: list.splits option.splits members_result.splits)


lemma safe_node_changed: "safe (node_changed i st)"
  unfolding node_changed_def
proof (rule safe_and_then[OF safe_pgsql_endCopy], rule safe_and_then[OF safe_pgsql_endCopy])
  fix st1 st2
  assume e1: "pgsql_endCopy t_way st = Inr st1" and e2: "pgsql_endCopy t_rel st1 = Inr st2"
  have w: "\<not> copyMode (table_of t_way st2)"
    using pgsql_endCopy_idle[OF e1] pgsql_endCopy_other[OF e2, of t_way] by simp
  have r: "\<not> copyMode (table_of t_rel st2)"
    using pgsql_endCopy_idle[OF e2] .
  show "safe (and_then (exec_intarray t_way st2) (\<lambda>_.
       (case st2\<lparr> ways_pending_tracker :=
                    fold mark (mark_ways_by_node (ways_rows st2) i)
                      (ways_pending_tracker st2) \<rparr> of
          st3 \<Rightarrow>
            and_then (exec_intarray t_rel st3) (\<lambda>_.
              Inr (st3\<lparr> rels_pending_tracker :=
                          fold mark (mark_rels_by_node (ways_rows st3) i)
                            (rels_pending_tracker st3) \<rparr>)))))"
    using w r by (intro safe_and_then safe_exec_intarray) simp_all
qed

lemma safe_relations_delete: "safe (relations_delete i st)"
  unfolding relations_delete_def
proof (rule safe_and_then[OF safe_pgsql_endCopy], rule safe_and_then[OF safe_pgsql_endCopy])
  fix st1 st2
  assume e1: "pgsql_endCopy t_way st = Inr st1" and e2: "pgsql_endCopy t_rel st1 = Inr st2"
  have w: "\<not> copyMode (table_of t_way st2)"
    using pgsql_endCopy_idle[OF e1] pgsql_endCopy_other[OF e2, of t_way] by simp
  have r: "\<not> copyMode (table_of t_rel st2)"
    using pgsql_endCopy_idle[OF e2] .
  show "safe (and_then (pgsql_execPrepared t_rel st2) (\<lambda>_.
       (case st2\<lparr> rels_rows := filter (\<lambda>r. r_id r \<noteq> i) (rels_rows st2) \<rparr> of
          st3 \<Rightarrow>
            and_then (exec_intarray t_way st3) (\<lambda>_.
              Inr (st3\<lparr> ways_pending_tracker :=
                          fold mark (mark_ways_by_rel (ways_rows st3) (rels_rows st3) i)
                            (ways_pending_tracker st3) \<rparr>)))))"
    using w r by (intro safe_and_then safe_pgsql_execPrepared safe_exec_intarray) simp_all
qed

lemma safe_iterate_ways_loop: "safe (iterate_ways_loop pick calls st)"
proof (induction pick calls st rule: iterate_ways_loop.induct)
  case (1 pick calls st)
  let ?i = "fst (pop_mark pick (ways_pending_tracker st))"
  let ?st = "st\<lparr> ways_pending_tracker := snd (pop_mark pick (ways_pending_tracker st)) \<rparr>"
  show ?case
  proof (cases "?i = ID_NONE")
    case True
    then show ?thesis by (simp add: iterate_ways_loop.simps[of pick calls st])
  next
    case False
    show ?thesis
    proof (cases "ways_get ?i ?st")
      case (Inl e)
      with safe_ways_get[of ?i ?st] have "e \<noteq> PreparedInCopyMode \<and> e \<noteq> CopyDataOutsideCopy"
        by simp
      with False Inl show ?thesis by (simp add: iterate_ways_loop.simps[of pick calls st])
    next
      case (Inr x)
      obtain r st2 where x: "x = (r, st2)" by (cases x)
      show ?thesis
      proof (cases r)
        case None
        with "1.IH"(1)[OF False Inr x[symmetric] None] False Inr x show ?thesis
          by (simp add: iterate_ways_loop.simps[of pick calls st])
      next
        case (Some d)
        obtain tags nodes nd_count where d: "d = (tags, nodes, nd_count)" by (cases d)
        with "1.IH"(2)[OF False Inr x[symmetric] Some] False Inr x Some show ?thesis
          by (simp add: iterate_ways_loop.simps[of pick calls st])
      qed
    qed
  qed
qed

lemma safe_iterate_ways: "safe (iterate_ways pick st)"
  unfolding iterate_ways_def
  by (intro safe_and_then safe_pgsql_endCopy safe_iterate_ways_loop)

lemma safe_iterate_relations_loop: "safe (iterate_relations_loop pick calls st)"
proof (induction pick calls st rule: iterate_relations_loop.induct)
  case (1 pick calls st)
  let ?i = "fst (pop_mark pick (rels_pending_tracker st))"
  let ?st = "st\<lparr> rels_pending_tracker := snd (pop_mark pick (rels_pending_tracker st)) \<rparr>"
  show ?case
  proof (cases "?i = ID_NONE")
    case True
    then show ?thesis by (simp add: iterate_relations_loop.simps[of pick calls st])
  next
    case False
    show ?thesis
    proof (cases "relations_get ?i ?st")
      case (Inl e)
      with safe_relations_get[of ?i ?st]
      have "e \<noteq> PreparedInCopyMode \<and> e \<noteq> CopyDataOutsideCopy" by simp
      with False Inl show ?thesis by (simp add: iterate_relations_loop.simps[of pick calls st])
    next
      case (Inr x)
      obtain r st2 where x: "x = (r, st2)" by (cases x)
      show ?thesis
      proof (cases r)
        case None
        with "1.IH"(1)[OF False Inr x[symmetric] None] False Inr x show ?thesis
          by (simp add: iterate_relations_loop.simps[of pick calls st])
      next
        case (Some d)
        obtain ms member_count tags where d: "d = (ms, member_count, tags)" by (cases d)
        with "1.IH"(2)[OF False Inr x[symmetric] Some] False Inr x Some show ?thesis
          by (simp add: iterate_relations_loop.simps[of pick calls st])
      qed
    qed
  qed
qed

lemma safe_iterate_relations: "safe (iterate_relations pick st)"
  unfolding iterate_relations_def
  by (intro safe_and_then safe_pgsql_endCopy safe_iterate_relations_loop)

lemma safe_commit: "safe (commit st)"
  unfolding commit_def
  by (intro safe_fold_result) (simp add: commit_table_def safe_and_then safe_pgsql_endCopy)

lemma safe_stop: "safe (stop st)"
  unfolding stop_def
  by (intro safe_fold_result) (simp add: pgsql_stop_one_def safe_and_then safe_pgsql_endCopy)

lemma safe_do_call: "safe (do_call c st)"
  by (cases c)
    (simp_all add: safe_forget safe_nodes_set safe_nodes_get_list safe_nodes_delete
      safe_node_changed safe_ways_set safe_ways_get safe_ways_get_list safe_ways_delete
      safe_iterate_ways safe_way_changed safe_relations_set safe_relations_get
      safe_relations_delete safe_iterate_relations safe_relation_changed
      safe_relations_using_way safe_commit safe_stop
      start_def analyze_def end_middle_def cleanup_def)

text \<open>
  C6. In every sequence of calls of the middle layer, from every state, no prepared
  statement is executed on a table whose connection is in COPY mode (and no row is
  copied to a table that is not): each path to \<^verbatim>\<open>pgsql_execPrepared\<close> first calls
  \<^verbatim>\<open>pgsql_endCopy\<close> on that table, or is the branch of a \<^verbatim>\<open>*_set\<close> function taken
  when the table is not in COPY mode.
\<close>

theorem no_prepared_statement_in_copy_mode:
  "do_calls calls st \<noteq> Inl PreparedInCopyMode \<and> do_calls calls st \<noteq> Inl CopyDataOutsideCopy"
proof -
  have "safe (do_calls calls st)"
    unfolding do_calls_def by (intro safe_fold_result safe_do_call)
  then show ?thesis by (simp add: safe_def)
qed

text \<open>
  C6, a run: after \<^verbatim>\<open>start\<close> all tables are in COPY mode; two rows are copied;
  \<^verbatim>\<open>node_changed\<close> ends the COPY of the ways and of the relations and runs its
  statements; the nodes table is still in COPY mode.
\<close>

theorem no_prepared_statement_in_copy_mode_witness:
  "do_calls (take 4 example_calls) (constructed [] [] [] example_options)
     \<noteq> Inl PreparedInCopyMode
   \<and> (case do_calls (take 4 example_calls) (constructed [] [] [] example_options) of
        Inl e \<Rightarrow> False
      | Inr st \<Rightarrow>
          copyMode (node_table st) \<and> \<not> copyMode (way_table st) \<and> \<not> copyMode (rel_table st)
          \<and> map w_id (ways_rows st) = [10] \<and> map r_id (rels_rows st) = [300]
          \<and> ways_pending_tracker st = [10])"
proof -
  have "case do_calls (take 4 example_calls) (constructed [] [] [] example_options) of
        Inl e \<Rightarrow> False
      | Inr st \<Rightarrow>
          copyMode (node_table st) \<and> \<not> copyMode (way_table st) \<and> \<not> copyMode (rel_table st)
          \<and> map w_id (ways_rows st) = [10] \<and> map r_id (rels_rows st) = [300]
          \<and> ways_pending_tracker st = [10]"
    by code_simp
  with no_prepared_statement_in_copy_mode[of "take 4 example_calls"
      "constructed [] [] [] example_options"]
  show ?thesis by blast
qed

section \<open>Properties of the id tracker and of the second pass\<close>

lemma mark_set [simp]: "set (mark i t) = insert i (set t)"
  by (auto simp: mark_def)

lemma mark_distinct [simp]: "distinct t \<Longrightarrow> distinct (mark i t)"
  by (simp add: mark_def)

lemma fold_mark_set [simp]: "set (fold mark ms t) = set ms \<union> set t"
  by (induction ms arbitrary: t) auto

lemma fold_mark_distinct [simp]: "distinct t \<Longrightarrow> distinct (fold mark ms t)"
  by (induction ms arbitrary: t) auto

lemma pop_mark_empty [simp]: "pop_mark pick [] = (ID_NONE, [])"
  by (simp add: pop_mark_def)

































end
